theory Spec2Isabelle
  imports Main "HOL-Library.Char_ord" "HOL-Library.List_Lexorder"
begin

section \<open>The ticket store of \<^verbatim>\<open>db.py\<close>\<close>

text \<open>
  The store keeps two SQLite tables, \<^verbatim>\<open>tickets\<close> and \<^verbatim>\<open>comments\<close>. A table is
  modelled as the list of its rows in rowid order, a row as a record with one field per
  column. Text columns are \<open>string\<close>s compared bytewise (SQLite's BINARY collation), which
  is the lexicographic order on \<open>char list\<close>. Identifiers are SQLite INTEGERs; the counter
  that AUTOINCREMENT keeps in \<^verbatim>\<open>sqlite_sequence\<close> is part of the state. The clock
  \<^verbatim>\<open>now_iso()\<close> is an input of every operation that reads it.

  A \<open>char\<close> stands for one character of a text, and no text holds a NUL character. The
  \<^verbatim>\<open>tags\<close> column is never NULL,
  since every operation that writes it binds a string. Identifiers passed by callers are
  taken to fit SQLite's 64-bit INTEGER. Limits of the storage engine other than the
  largest rowid (pattern length, disk space) are outside the model.
\<close>

subsection \<open>Rows and the database state\<close>

record ticket =
  t_id :: int
  t_project :: string
  t_title :: string
  t_description :: string
  t_status :: string
  t_priority :: string
  t_tags :: string
  t_created_at :: string
  t_updated_at :: string

record comment =
  c_id :: int
  c_ticket_id :: int
  c_author :: string
  c_content :: string
  c_created_at :: string

record db =
  tickets :: "ticket list"
  comments :: "comment list"
  tickets_seq :: int
  comments_seq :: int

datatype error = ValueError | OperationalError

definition VALID_STATUSES :: "string set" where
  "VALID_STATUSES = {''pending'', ''in_progress'', ''ready_to_test'', ''closed''}"

definition VALID_PRIORITIES :: "string set" where
  "VALID_PRIORITIES = {''high'', ''medium'', ''low''}"

text \<open>\<^verbatim>\<open>init_db\<close> on a fresh file: both tables exist and are empty, no sequence is recorded.\<close>

definition init_db :: db where
  "init_db = \<lparr>tickets = [], comments = [], tickets_seq = 0, comments_seq = 0\<rparr>"

subsection \<open>The SQL the operations rely on\<close>

text \<open>
  \<^verbatim>\<open>INTEGER PRIMARY KEY AUTOINCREMENT\<close>: the new rowid is one more than the largest rowid
  the table has ever held (the larger of the recorded sequence and the rowids present);
  when that is the largest 64-bit integer the INSERT fails (SQLITE_FULL).
\<close>

definition MAX_ROWID :: int where
  "MAX_ROWID = 9223372036854775807"

definition next_rowid :: "int \<Rightarrow> int list \<Rightarrow> int option" where
  "next_rowid seq ids =
     (let m = fold max ids seq in if MAX_ROWID \<le> m then None else Some (m + 1))"

text \<open>
  \<^verbatim>\<open>ORDER BY\<close>: rows are inserted one by one into the sorted result. SQLite leaves the
  order among rows with equal sort keys open; here they stay in table order, and no
  property below depends on that choice.
\<close>

fun insert_row :: "('a \<Rightarrow> 'a \<Rightarrow> bool) \<Rightarrow> 'a \<Rightarrow> 'a list \<Rightarrow> 'a list" where
  "insert_row le x [] = [x]"
| "insert_row le x (y # ys) = (if le x y then x # y # ys else y # insert_row le x ys)"

definition order_by :: "('a \<Rightarrow> 'a \<Rightarrow> bool) \<Rightarrow> 'a list \<Rightarrow> 'a list" where
  "order_by le xs = foldr (insert_row le) xs []"

text \<open>
  \<^verbatim>\<open>LIKE\<close> as SQLite evaluates it without an ESCAPE clause: \<^verbatim>\<open>%\<close> in the pattern stands
  for any run of characters, \<^verbatim>\<open>_\<close> for exactly one, and every other character matches
  itself with the ASCII letters compared without regard to case. The pattern is the
  first argument, the text the second.
\<close>

definition ascii_lower :: "char \<Rightarrow> char" where
  "ascii_lower c =
     (if CHR ''A'' \<le> c \<and> c \<le> CHR ''Z'' then char_of (of_char c + (32::nat)) else c)"

fun like :: "string \<Rightarrow> string \<Rightarrow> bool" where
  "like [] s = (s = [])"
| "like (p # ps) [] = (p = CHR ''%'' \<and> like ps [])"
| "like (p # ps) (c # cs) =
     (if p = CHR ''%'' then like ps (c # cs) \<or> like (p # ps) cs
      else (p = CHR ''_'' \<or> ascii_lower p = ascii_lower c) \<and> like ps cs)"

text \<open>
  The sort key shared by \<^verbatim>\<open>list_tickets\<close> and \<^verbatim>\<open>search_tickets\<close>:
  \<^verbatim>\<open>CASE priority WHEN 'high' THEN 1 WHEN 'medium' THEN 2 ELSE 3 END, created_at DESC\<close>.
\<close>

definition priority_rank :: "string \<Rightarrow> nat" where
  "priority_rank p = (if p = ''high'' then 1 else if p = ''medium'' then 2 else 3)"

definition ticket_order :: "ticket \<Rightarrow> ticket \<Rightarrow> bool" where
  "ticket_order a b \<longleftrightarrow>
     priority_rank (t_priority a) < priority_rank (t_priority b) \<or>
     (priority_rank (t_priority a) = priority_rank (t_priority b) \<and>
      t_created_at b \<le> t_created_at a)"

definition comment_order :: "comment \<Rightarrow> comment \<Rightarrow> bool" where
  "comment_order a b \<longleftrightarrow> c_created_at a \<le> c_created_at b"

text \<open>
  Python's truth test on an optional string, as in \<^verbatim>\<open>if status:\<close>: \<^verbatim>\<open>None\<close> and the
  empty string both count as an absent filter.
\<close>

fun given :: "string option \<Rightarrow> string option" where
  "given None = None"
| "given (Some s) = (if s = [] then None else Some s)"

subsection \<open>Reading\<close>

definition get_comments :: "db \<Rightarrow> int \<Rightarrow> comment list" where
  "get_comments d ticket_id =
     order_by comment_order (filter (\<lambda>c. c_ticket_id c = ticket_id) (comments d))"

definition get_ticket :: "db \<Rightarrow> int \<Rightarrow> (ticket \<times> comment list) option" where
  "get_ticket d ticket_id =
     (case find (\<lambda>t. t_id t = ticket_id) (tickets d) of
        None \<Rightarrow> None
      | Some row \<Rightarrow> Some (row,
          order_by comment_order (filter (\<lambda>c. c_ticket_id c = ticket_id) (comments d))))"

definition list_where ::
  "string option \<Rightarrow> string option \<Rightarrow> string option \<Rightarrow> string option \<Rightarrow> ticket \<Rightarrow> bool" where
  "list_where project status priority tag t \<longleftrightarrow>
     (case given project of None \<Rightarrow> True | Some p \<Rightarrow> t_project t = p) \<and>
     (case given status of None \<Rightarrow> True | Some s \<Rightarrow> t_status t = s) \<and>
     (case given priority of None \<Rightarrow> True | Some p \<Rightarrow> t_priority t = p) \<and>
     (case given tag of None \<Rightarrow> True
      | Some g \<Rightarrow> like (''%,'' @ g @ '',%'') ('','' @ t_tags t @ '',''))"

text \<open>
  A filter that is given and outside its enumerated set raises \<^verbatim>\<open>ValueError\<close>; the
  test sits inside the truth test of the filter.
\<close>

definition rejected :: "string set \<Rightarrow> string option \<Rightarrow> bool" where
  "rejected allowed v = (case given v of None \<Rightarrow> False | Some s \<Rightarrow> s \<notin> allowed)"

definition list_tickets ::
  "db \<Rightarrow> string option \<Rightarrow> string option \<Rightarrow> string option \<Rightarrow> string option
     \<Rightarrow> error + ticket list" where
  "list_tickets d project status priority tag =
     (if rejected VALID_STATUSES status then Inl ValueError
      else if rejected VALID_PRIORITIES priority then Inl ValueError
      else Inr (order_by ticket_order
                  (filter (list_where project status priority tag) (tickets d))))"

text \<open>
  \<^verbatim>\<open>SELECT DISTINCT t.* FROM tickets t LEFT JOIN comments c ON c.ticket_id = t.id\<close>:
  a ticket is paired with each of its comments, or with no comment (NULL columns) when it
  has none. \<^verbatim>\<open>LIKE\<close> on a NULL content is not true.
\<close>

definition left_join :: "db \<Rightarrow> (ticket \<times> comment option) list" where
  "left_join d =
     concat (map (\<lambda>t. case filter (\<lambda>c. c_ticket_id c = t_id t) (comments d) of
                         [] \<Rightarrow> [(t, None)]
                       | cs \<Rightarrow> map (\<lambda>c. (t, Some c)) cs) (tickets d))"

definition search_where ::
  "string \<Rightarrow> string option \<Rightarrow> string option \<Rightarrow> ticket \<times> comment option \<Rightarrow> bool" where
  "search_where pattern project status tc \<longleftrightarrow>
     (like pattern (t_title (fst tc)) \<or>
      like pattern (t_description (fst tc)) \<or>
      like pattern (t_tags (fst tc)) \<or>
      (case snd tc of None \<Rightarrow> False | Some c \<Rightarrow> like pattern (c_content c))) \<and>
     (case given project of None \<Rightarrow> True | Some p \<Rightarrow> t_project (fst tc) = p) \<and>
     (case given status of None \<Rightarrow> True | Some s \<Rightarrow> t_status (fst tc) = s)"

definition search_tickets ::
  "db \<Rightarrow> string \<Rightarrow> string option \<Rightarrow> string option \<Rightarrow> error + ticket list" where
  "search_tickets d query project status =
     (if rejected VALID_STATUSES status then Inl ValueError
      else Inr (order_by ticket_order
                  (remdups (map fst
                     (filter (search_where (''%'' @ query @ ''%'') project status)
                        (left_join d))))))"

subsection \<open>Writing\<close>

text \<open>
  Every writing operation returns its result together with the database after it. An
  exception leaves the database as it was: nothing has been executed or committed.
\<close>

definition create_ticket ::
  "string \<Rightarrow> db \<Rightarrow> string \<Rightarrow> string \<Rightarrow> string \<Rightarrow> string \<Rightarrow> string
     \<Rightarrow> (error + (ticket \<times> comment list) option) \<times> db" where
  "create_ticket now d project title description priority tags =
     (if priority \<notin> VALID_PRIORITIES then (Inl ValueError, d)
      else case next_rowid (tickets_seq d) (map t_id (tickets d)) of
             None \<Rightarrow> (Inl OperationalError, d)
           | Some ticket_id \<Rightarrow>
               (let d' = d\<lparr>tickets := tickets d @
                             [\<lparr>t_id = ticket_id, t_project = project, t_title = title,
                               t_description = description, t_status = ''pending'',
                               t_priority = priority, t_tags = tags,
                               t_created_at = now, t_updated_at = now\<rparr>],
                           tickets_seq := ticket_id\<rparr>
                in (Inr (get_ticket d' ticket_id), d')))"

text \<open>
  \<^verbatim>\<open>update_ticket\<close> collects one assignment per argument that is not \<^verbatim>\<open>None\<close> and
  runs \<^verbatim>\<open>UPDATE tickets SET ... WHERE id = ?\<close> with them, \<^verbatim>\<open>updated_at\<close> last.
\<close>

datatype column = Title | Description | Status | Priority | Tags | Updated_at

fun set_column :: "column \<times> string \<Rightarrow> ticket \<Rightarrow> ticket" where
  "set_column (Title, v) r = r\<lparr>t_title := v\<rparr>"
| "set_column (Description, v) r = r\<lparr>t_description := v\<rparr>"
| "set_column (Status, v) r = r\<lparr>t_status := v\<rparr>"
| "set_column (Priority, v) r = r\<lparr>t_priority := v\<rparr>"
| "set_column (Tags, v) r = r\<lparr>t_tags := v\<rparr>"
| "set_column (Updated_at, v) r = r\<lparr>t_updated_at := v\<rparr>"

definition sql_update :: "(column \<times> string) list \<Rightarrow> int \<Rightarrow> ticket list \<Rightarrow> ticket list" where
  "sql_update updates ticket_id rows =
     map (\<lambda>r. if t_id r = ticket_id then fold set_column updates r else r) rows"

fun provided :: "column \<Rightarrow> string option \<Rightarrow> (column \<times> string) list" where
  "provided c None = []"
| "provided c (Some v) = [(c, v)]"

definition update_ticket ::
  "string \<Rightarrow> db \<Rightarrow> int \<Rightarrow> string option \<Rightarrow> string option \<Rightarrow> string option
     \<Rightarrow> string option \<Rightarrow> string option
     \<Rightarrow> (error + (ticket \<times> comment list) option) \<times> db" where
  "update_ticket now d ticket_id title description status priority tags =
     (case get_ticket d ticket_id of
        None \<Rightarrow> (Inr None, d)
      | Some existing \<Rightarrow>
          if (case status of None \<Rightarrow> False | Some s \<Rightarrow> s \<notin> VALID_STATUSES)
          then (Inl ValueError, d)
          else if (case priority of None \<Rightarrow> False | Some p \<Rightarrow> p \<notin> VALID_PRIORITIES)
          then (Inl ValueError, d)
          else
            (let updates = provided Title title @ provided Description description @
                           provided Status status @ provided Priority priority @
                           provided Tags tags
             in if updates = [] then (Inr (Some existing), d)
                else
                  (let d' = d\<lparr>tickets :=
                               sql_update (updates @ [(Updated_at, now)]) ticket_id (tickets d)\<rparr>
                   in (Inr (get_ticket d' ticket_id), d'))))"

text \<open>
  \<^verbatim>\<open>delete_ticket\<close> deletes the comments, then the ticket; its result is the row count
  of the second statement.
\<close>

definition delete_ticket :: "db \<Rightarrow> int \<Rightarrow> bool \<times> db" where
  "delete_ticket d ticket_id =
     (let d1 = d\<lparr>comments := filter (\<lambda>c. c_ticket_id c \<noteq> ticket_id) (comments d)\<rparr>;
          rowcount = length (filter (\<lambda>t. t_id t = ticket_id) (tickets d1));
          d2 = d1\<lparr>tickets := filter (\<lambda>t. t_id t \<noteq> ticket_id) (tickets d1)\<rparr>
      in (0 < rowcount, d2))"

definition add_comment ::
  "string \<Rightarrow> db \<Rightarrow> int \<Rightarrow> string \<Rightarrow> string \<Rightarrow> (error + comment option) \<times> db" where
  "add_comment now d ticket_id author content =
     (case get_ticket d ticket_id of
        None \<Rightarrow> (Inr None, d)
      | Some existing \<Rightarrow>
          (case next_rowid (comments_seq d) (map c_id (comments d)) of
             None \<Rightarrow> (Inl OperationalError, d)
           | Some comment_id \<Rightarrow>
               (let new = \<lparr>c_id = comment_id, c_ticket_id = ticket_id, c_author = author,
                           c_content = content, c_created_at = now\<rparr>;
                    d1 = d\<lparr>comments := comments d @ [new], comments_seq := comment_id\<rparr>;
                    d2 = d1\<lparr>tickets := sql_update [(Updated_at, now)] ticket_id (tickets d1)\<rparr>
                in (Inr (Some new), d2))))"

subsection \<open>The lifetime of a store\<close>

text \<open>
  A store lives through a sequence of writing calls, starting from \<open>init_db\<close>. The run
  records, in order, the identifier of every ticket a \<^verbatim>\<open>create_ticket\<close> returned.
\<close>

datatype call =
  Create_ticket string string string string string string
| Update_ticket string int "string option" "string option" "string option"
    "string option" "string option"
| Delete_ticket int
| Add_comment string int string string

fun perform :: "call \<Rightarrow> db \<Rightarrow> db" where
  "perform (Create_ticket now project title description priority tags) d =
     snd (create_ticket now d project title description priority tags)"
| "perform (Update_ticket now ticket_id title description status priority tags) d =
     snd (update_ticket now d ticket_id title description status priority tags)"
| "perform (Delete_ticket ticket_id) d = snd (delete_ticket d ticket_id)"
| "perform (Add_comment now ticket_id author content) d =
     snd (add_comment now d ticket_id author content)"

fun created :: "call \<Rightarrow> db \<Rightarrow> int list" where
  "created (Create_ticket now project title description priority tags) d =
     (case fst (create_ticket now d project title description priority tags) of
        Inr (Some r) \<Rightarrow> [t_id (fst r)]
      | _ \<Rightarrow> [])"
| "created _ d = []"

fun run :: "call list \<Rightarrow> db \<times> int list \<Rightarrow> db \<times> int list" where
  "run [] s = s"
| "run (c # cs) s = run cs (perform c (fst s), snd s @ created c (fst s))"

subsection \<open>Example stores\<close>

text \<open>
  \<open>store1\<close> is the store after the first \<^verbatim>\<open>create_ticket("/p", "T", "D")\<close>;
  \<open>store2\<close> is the same store after \<^verbatim>\<open>add_comment(1, "user", "note")\<close>.
\<close>

definition ticket1 :: ticket where
  "ticket1 = \<lparr>t_id = 1, t_project = ''/p'', t_title = ''T'', t_description = ''D'',
              t_status = ''pending'', t_priority = ''medium'', t_tags = [],
              t_created_at = ''2026-01-01T10:00:00'', t_updated_at = ''2026-01-01T10:00:00''\<rparr>"

definition comment1 :: comment where
  "comment1 = \<lparr>c_id = 1, c_ticket_id = 1, c_author = ''user'', c_content = ''note'',
               c_created_at = ''2026-01-01T10:05:00''\<rparr>"

definition store1 :: db where
  "store1 = \<lparr>tickets = [ticket1], comments = [], tickets_seq = 1, comments_seq = 0\<rparr>"

definition store2 :: db where
  "store2 = \<lparr>tickets = [ticket1\<lparr>t_updated_at := ''2026-01-01T10:05:00''\<rparr>],
             comments = [comment1], tickets_seq = 1, comments_seq = 1\<rparr>"

definition ticket_row :: "int \<Rightarrow> string \<Rightarrow> string \<Rightarrow> string \<Rightarrow> string \<Rightarrow> ticket" where
  "ticket_row i title priority tags at =
     \<lparr>t_id = i, t_project = ''/p'', t_title = title, t_description = ''D'',
      t_status = ''pending'', t_priority = priority, t_tags = tags,
      t_created_at = at, t_updated_at = at\<rparr>"

text \<open>
  \<open>store3\<close> holds tickets of priority low, high, medium and high, created in that order,
  with the tags of the specification's example. \<open>store4\<close> holds a ticket whose only
  occurrences of \<^verbatim>\<open>foo\<close> are in two of its comments, and another ticket with one
  comment.
\<close>

definition store3 :: db where
  "store3 = \<lparr>tickets = [ticket_row 1 ''a'' ''low'' ''bug,urgent'' ''2026-01-01T10:00:00'',
                         ticket_row 2 ''b'' ''high'' ''bug'' ''2026-01-01T10:01:00'',
                         ticket_row 3 ''c'' ''medium'' ''bugfix'' ''2026-01-01T10:02:00'',
                         ticket_row 4 ''d'' ''high'' [] ''2026-01-01T10:03:00.250000''],
             comments = [], tickets_seq = 4, comments_seq = 0\<rparr>"

definition store4 :: db where
  "store4 = \<lparr>tickets = [ticket_row 1 ''abc'' ''low'' [] ''2026-01-01T10:00:00'',
                         ticket_row 2 ''xyz'' ''high'' [] ''2026-01-01T10:01:00''],
             comments = [\<lparr>c_id = 1, c_ticket_id = 2, c_author = ''user'',
                          c_content = ''foo one'', c_created_at = ''2026-01-01T10:02:00''\<rparr>,
                         \<lparr>c_id = 2, c_ticket_id = 1, c_author = ''user'',
                          c_content = ''hello'', c_created_at = ''2026-01-01T10:02:30''\<rparr>,
                         \<lparr>c_id = 3, c_ticket_id = 2, c_author = ''claude'',
                          c_content = ''more foo'', c_created_at = ''2026-01-01T10:03:00''\<rparr>],
             tickets_seq = 2, comments_seq = 3\<rparr>"

text \<open>\<open>store5\<close> holds one ticket of project \<^verbatim>\<open>/p\<close> and one of project \<^verbatim>\<open>/q\<close>.\<close>

definition store5 :: db where
  "store5 = \<lparr>tickets = [ticket_row 1 ''a'' ''low'' ''bug'' ''2026-01-01T10:00:00'',
                         (ticket_row 2 ''b'' ''high'' ''bugfix'' ''2026-01-01T10:01:00'')
                           \<lparr>t_project := ''/q''\<rparr>],
             comments = [], tickets_seq = 2, comments_seq = 0\<rparr>"

subsection \<open>The specification's notions of matching\<close>

text \<open>
  The specification speaks of a query that appears as a substring of a text, and of a tag
  that is a standalone element of the comma-joined tags. \<open>occurs_in q s\<close> is the first
  (Python's \<^verbatim>\<open>q in s\<close>), \<open>tag_elements tags\<close> lists the elements of the second
  (Python's \<^verbatim>\<open>tags.split(",")\<close>). \<open>no_wildcard\<close> singles out the strings in which
  \<^verbatim>\<open>LIKE\<close> finds no wildcard.
\<close>

fun starts_with :: "string \<Rightarrow> string \<Rightarrow> bool" where
  "starts_with s [] = True"
| "starts_with [] (q # qs) = False"
| "starts_with (c # cs) (q # qs) = (c = q \<and> starts_with cs qs)"

fun occurs_in :: "string \<Rightarrow> string \<Rightarrow> bool" where
  "occurs_in q [] = (q = [])"
| "occurs_in q (c # cs) = (starts_with (c # cs) q \<or> occurs_in q cs)"

fun tag_elements :: "string \<Rightarrow> string list" where
  "tag_elements [] = [[]]"
| "tag_elements (c # cs) =
     (if c = CHR '','' then [] # tag_elements cs
      else (case tag_elements cs of [] \<Rightarrow> [[c]] | e # es \<Rightarrow> (c # e) # es))"

definition no_wildcard :: "string \<Rightarrow> bool" where
  "no_wildcard q \<longleftrightarrow> CHR ''%'' \<notin> set q \<and> CHR ''_'' \<notin> set q"

section \<open>Properties\<close>

subsection \<open>Lookups, updates and row identifiers\<close>

lemma find_Some_D: "find P xs = Some x \<Longrightarrow> x \<in> set xs \<and> P x"
  by (induction xs) (auto split: if_splits)

lemma find_snoc:
  "find P (xs @ [x]) =
     (case find P xs of Some y \<Rightarrow> Some y | None \<Rightarrow> if P x then Some x else None)"
  by (induction xs) auto

lemma get_ticket_None_iff:
  "get_ticket d i = None \<longleftrightarrow> (\<forall>t \<in> set (tickets d). t_id t \<noteq> i)"
proof -
  have "get_ticket d i = None \<longleftrightarrow> find (\<lambda>t. t_id t = i) (tickets d) = None"
    by (simp add: get_ticket_def split: option.splits)
  then show ?thesis by (auto simp: find_None_iff)
qed

lemma get_ticket_Some_D:
  "get_ticket d i = Some (t, cs) \<Longrightarrow> t \<in> set (tickets d) \<and> t_id t = i"
  by (auto simp: get_ticket_def split: option.splits dest: find_Some_D)

lemma set_insert_row [simp]: "set (insert_row le x xs) = insert x (set xs)"
  by (induction xs) auto

lemma set_order_by [simp]: "set (order_by le xs) = set xs"
  by (induction xs) (auto simp: order_by_def)

lemma order_by_Nil [simp]: "order_by le [] = []"
  by (simp add: order_by_def)

lemma t_id_set_column [simp]: "t_id (set_column a r) = t_id r"
  by (cases "(a, r)" rule: set_column.cases) auto

lemma t_id_fold_set_column [simp]: "t_id (fold set_column ups r) = t_id r"
  by (induction ups arbitrary: r) auto

lemma find_sql_update:
  "find (\<lambda>t. t_id t = j) (sql_update ups i rows) =
     (if j = i then map_option (fold set_column ups) (find (\<lambda>t. t_id t = i) rows)
      else find (\<lambda>t. t_id t = j) rows)"
  by (induction rows) (auto simp: sql_update_def)

lemma fold_max_ge: "(seq::int) \<le> fold max ids seq"
  by (induction ids arbitrary: seq) (auto intro: order_trans [OF max.cobounded2])

lemma fold_max_ge_elem: "(i::int) \<in> set ids \<Longrightarrow> i \<le> fold max ids seq"
proof (induction ids arbitrary: seq)
  case Nil
  then show ?case by simp
next
  case (Cons a ids)
  show ?case
  proof (cases "i = a")
    case True
    have "max a seq \<le> fold max ids (max a seq)" by (rule fold_max_ge)
    with True show ?thesis by simp
  next
    case False
    with Cons show ?thesis by simp
  qed
qed

lemma next_rowid_gt:
  "next_rowid seq ids = Some n \<Longrightarrow> seq < n \<and> (\<forall>i \<in> set ids. i < n) \<and> n \<le> MAX_ROWID"
  using fold_max_ge [of seq ids] fold_max_ge_elem [of _ ids seq]
  by (fastforce simp: next_rowid_def Let_def split: if_splits)

lemmas store_defs = store1_def store2_def store3_def store4_def store5_def ticket_row_def ticket1_def
  comment1_def init_db_def VALID_STATUSES_def VALID_PRIORITIES_def get_ticket_def
  get_comments_def next_rowid_def MAX_ROWID_def sql_update_def comment_order_def

lemmas query_defs = list_tickets_def search_tickets_def rejected_def list_where_def
  search_where_def left_join_def order_by_def ticket_order_def priority_rank_def
  ascii_lower_def char_of_eq_iff

subsection \<open>Validation and missing tickets\<close>

text \<open>
  C10. When no ticket has the given id, \<^verbatim>\<open>update_ticket\<close> returns not-found (\<open>None\<close>)
  and leaves the store alone, whatever the other arguments are: the existence check comes
  before the validation of status and priority, so no \<open>ValueError\<close> is raised even for a
  status or priority outside its set.
\<close>

theorem update_missing_ticket_not_found:
  "get_ticket d ticket_id = None \<Longrightarrow>
   update_ticket now d ticket_id title description status priority tags = (Inr None, d)"
  by (simp add: update_ticket_def)

theorem update_missing_ticket_not_found_witness:
  "get_ticket store1 7 = None \<and> ''bogus'' \<notin> VALID_STATUSES \<and> ''urgent'' \<notin> VALID_PRIORITIES \<and>
   update_ticket ''2026-01-02T09:00:00'' store1 7 None None (Some ''bogus'') (Some ''urgent'') None
     = (Inr None, store1)"
  using update_missing_ticket_not_found [of store1 7 "''2026-01-02T09:00:00''" None None
      "Some ''bogus''" "Some ''urgent''" None]
  by (simp add: store_defs)

text \<open>
  C5. \<^verbatim>\<open>create_ticket\<close> with a priority outside \<open>VALID_PRIORITIES\<close>, and
  \<^verbatim>\<open>update_ticket\<close> on an existing ticket with a status outside \<open>VALID_STATUSES\<close> or a
  priority outside \<open>VALID_PRIORITIES\<close>, raise \<open>ValueError\<close> and return the store exactly as
  it was: no row is inserted and no field of any ticket is written.
\<close>

theorem invalid_enum_aborts_without_write:
  "(priority \<notin> VALID_PRIORITIES \<longrightarrow>
      create_ticket now d project title description priority tags = (Inl ValueError, d)) \<and>
   (get_ticket d ticket_id \<noteq> None \<and>
      ((\<exists>s. ustatus = Some s \<and> s \<notin> VALID_STATUSES) \<or>
       (\<exists>p. upriority = Some p \<and> p \<notin> VALID_PRIORITIES)) \<longrightarrow>
      update_ticket now d ticket_id utitle udescription ustatus upriority utags
        = (Inl ValueError, d))"
  by (auto simp: create_ticket_def update_ticket_def split: option.splits)

theorem invalid_enum_aborts_without_write_witness:
  "''urgent'' \<notin> VALID_PRIORITIES \<and>
   create_ticket ''2026-01-02T09:00:00'' store1 ''/p'' ''T2'' ''D2'' ''urgent'' []
     = (Inl ValueError, store1) \<and>
   get_ticket store1 1 \<noteq> None \<and> ''done'' \<notin> VALID_STATUSES \<and>
   update_ticket ''2026-01-02T09:00:00'' store1 1 (Some ''T3'') None (Some ''done'') None None
     = (Inl ValueError, store1) \<and>
   update_ticket ''2026-01-02T09:00:00'' store1 1 (Some ''T3'') None None (Some ''urgent'') (Some ''x'')
     = (Inl ValueError, store1)"
  using invalid_enum_aborts_without_write [of "''urgent''" "''2026-01-02T09:00:00''" store1
      "''/p''" "''T2''" "''D2''" "[]" 1 "Some ''done''" None "Some ''T3''" None None]
    invalid_enum_aborts_without_write [of "''urgent''" "''2026-01-02T09:00:00''" store1
      "''/p''" "''T2''" "''D2''" "[]" 1 None "Some ''urgent''" "Some ''T3''" None "Some ''x''"]
  by (simp add: store_defs)

subsection \<open>Comments and deletion\<close>

text \<open>
  C6. \<^verbatim>\<open>add_comment\<close> on an id with no ticket returns not-found (\<open>None\<close>) and leaves the
  store, and so the comments table, unchanged. On an id with a ticket, unless the storage
  engine has run out of comment rowids, it returns the new comment, appends exactly that
  row to the comments table, and the owning ticket then reads back with \<open>updated_at\<close> set
  to the time of the call and with the new comment among its comments.
\<close>

theorem add_comment_requires_ticket:
  "(get_ticket d ticket_id = None \<longrightarrow>
      add_comment now d ticket_id author content = (Inr None, d)) \<and>
   (get_ticket d ticket_id \<noteq> None \<and>
    fst (add_comment now d ticket_id author content) \<noteq> Inl OperationalError \<longrightarrow>
      (\<exists>c d' t cs.
         add_comment now d ticket_id author content = (Inr (Some c), d') \<and>
         c_ticket_id c = ticket_id \<and> c_author c = author \<and> c_content c = content \<and>
         c_created_at c = now \<and> comments d' = comments d @ [c] \<and>
         get_ticket d' ticket_id = Some (t, cs) \<and> c \<in> set cs \<and> t_updated_at t = now))"
proof (cases "get_ticket d ticket_id")
  case None
  then show ?thesis by (simp add: add_comment_def)
next
  case (Some existing)
  then obtain row where row: "find (\<lambda>t. t_id t = ticket_id) (tickets d) = Some row"
    by (auto simp: get_ticket_def split: option.splits)
  show ?thesis
  proof (cases "next_rowid (comments_seq d) (map c_id (comments d))")
    case None
    with Some show ?thesis by (simp add: add_comment_def)
  next
    case (Some n)
    with \<open>get_ticket d ticket_id = Some existing\<close> row show ?thesis
      by (simp add: add_comment_def Let_def get_ticket_def find_sql_update)
  qed
qed

theorem add_comment_requires_ticket_witness:
  "get_ticket store1 2 = None \<and>
   add_comment ''2026-01-01T10:05:00'' store1 2 ''user'' ''note'' = (Inr None, store1) \<and>
   get_ticket store1 1 \<noteq> None \<and>
   add_comment ''2026-01-01T10:05:00'' store1 1 ''user'' ''note'' = (Inr (Some comment1), store2) \<and>
   get_ticket store2 1 = Some (ticket1\<lparr>t_updated_at := ''2026-01-01T10:05:00''\<rparr>, [comment1])"
  using add_comment_requires_ticket [of store1 2 "''2026-01-01T10:05:00''" "''user''" "''note''"]
    add_comment_requires_ticket [of store1 1 "''2026-01-01T10:05:00''" "''user''" "''note''"]
  by (simp add: store_defs add_comment_def order_by_def Let_def)

text \<open>
  C7. \<^verbatim>\<open>delete_ticket\<close> returns true exactly when a ticket with the id existed before
  the call. Afterwards no ticket row has that id and no comment row has it as its
  \<open>ticket_id\<close>, so \<^verbatim>\<open>get_ticket\<close> returns not-found and \<^verbatim>\<open>get_comments\<close> the empty list.
\<close>

theorem delete_ticket_cascades:
  "(fst (delete_ticket d ticket_id) \<longleftrightarrow> get_ticket d ticket_id \<noteq> None) \<and>
   (\<forall>t \<in> set (tickets (snd (delete_ticket d ticket_id))). t_id t \<noteq> ticket_id) \<and>
   (\<forall>c \<in> set (comments (snd (delete_ticket d ticket_id))). c_ticket_id c \<noteq> ticket_id) \<and>
   get_ticket (snd (delete_ticket d ticket_id)) ticket_id = None \<and>
   get_comments (snd (delete_ticket d ticket_id)) ticket_id = []"
  by (auto simp: delete_ticket_def Let_def get_ticket_None_iff get_comments_def filter_empty_conv)

theorem delete_ticket_cascades_witness:
  "get_ticket store4 2 \<noteq> None \<and>
   delete_ticket store4 2 =
     (True, \<lparr>tickets = [ticket_row 1 ''abc'' ''low'' [] ''2026-01-01T10:00:00''],
             comments = [\<lparr>c_id = 2, c_ticket_id = 1, c_author = ''user'',
                          c_content = ''hello'', c_created_at = ''2026-01-01T10:02:30''\<rparr>],
             tickets_seq = 2, comments_seq = 3\<rparr>) \<and>
   get_ticket (snd (delete_ticket store4 2)) 2 = None \<and>
   get_comments (snd (delete_ticket store4 2)) 2 = [] \<and>
   get_ticket store4 5 = None \<and> delete_ticket store4 5 = (False, store4)"
  using delete_ticket_cascades [of store4 2] delete_ticket_cascades [of store4 5]
  by (simp add: store_defs delete_ticket_def order_by_def Let_def)

subsection \<open>Updating a ticket\<close>

lemma provided_Nil_iff [simp]: "provided c v = [] \<longleftrightarrow> v = None"
  by (cases v) auto

lemma updates_empty_iff:
  "provided Title title @ provided Description description @ provided Status status @
   provided Priority priority @ provided Tags tags = [] \<longleftrightarrow>
   title = None \<and> description = None \<and> status = None \<and> priority = None \<and> tags = None"
  by (cases title; cases description; cases status; cases priority; cases tags; simp)

lemma fold_set_column_updates:
  "fold set_column
     ((provided Title title @ provided Description description @ provided Status status @
       provided Priority priority @ provided Tags tags) @ [(Updated_at, now)]) old =
   \<lparr>t_id = t_id old, t_project = t_project old,
    t_title = (case title of None \<Rightarrow> t_title old | Some v \<Rightarrow> v),
    t_description = (case description of None \<Rightarrow> t_description old | Some v \<Rightarrow> v),
    t_status = (case status of None \<Rightarrow> t_status old | Some v \<Rightarrow> v),
    t_priority = (case priority of None \<Rightarrow> t_priority old | Some v \<Rightarrow> v),
    t_tags = (case tags of None \<Rightarrow> t_tags old | Some v \<Rightarrow> v),
    t_created_at = t_created_at old, t_updated_at = now\<rparr>"
  by (cases title; cases description; cases status; cases priority; cases tags; cases old; simp)

lemma get_ticket_sql_update_other:
  "j \<noteq> i \<Longrightarrow> get_ticket (d\<lparr>tickets := sql_update ups i (tickets d)\<rparr>) j = get_ticket d j"
  by (simp add: get_ticket_def find_sql_update split: option.splits)

lemma get_ticket_sql_update_same:
  "get_ticket d i = Some (old, cs) \<Longrightarrow>
   get_ticket (d\<lparr>tickets := sql_update ups i (tickets d)\<rparr>) i = Some (fold set_column ups old, cs)"
  by (auto simp: get_ticket_def find_sql_update split: option.splits)

text \<open>
  C4. On an existing ticket, \<^verbatim>\<open>update_ticket\<close> with a valid (or omitted) status and
  priority returns the ticket in which exactly the provided fields carry their new values:
  every omitted field, the id, the project and \<open>created_at\<close> keep their prior values. With
  no field provided the ticket is returned as it was and the store is untouched, so
  \<open>updated_at\<close> is not modified; with at least one field provided \<open>updated_at\<close> becomes
  the time of the call. The ticket's comments, the comments table and every other ticket
  are unchanged.
\<close>

theorem update_ticket_changes_only_provided:
  assumes existing: "get_ticket d ticket_id = Some (old, cs)"
    and status_ok: "\<forall>s. status = Some s \<longrightarrow> s \<in> VALID_STATUSES"
    and priority_ok: "\<forall>p. priority = Some p \<longrightarrow> p \<in> VALID_PRIORITIES"
  shows "\<exists>new d'.
     update_ticket now d ticket_id title description status priority tags = (Inr (Some (new, cs)), d') \<and>
     get_ticket d' ticket_id = Some (new, cs) \<and>
     new = \<lparr>t_id = t_id old, t_project = t_project old,
            t_title = (case title of None \<Rightarrow> t_title old | Some v \<Rightarrow> v),
            t_description = (case description of None \<Rightarrow> t_description old | Some v \<Rightarrow> v),
            t_status = (case status of None \<Rightarrow> t_status old | Some v \<Rightarrow> v),
            t_priority = (case priority of None \<Rightarrow> t_priority old | Some v \<Rightarrow> v),
            t_tags = (case tags of None \<Rightarrow> t_tags old | Some v \<Rightarrow> v),
            t_created_at = t_created_at old,
            t_updated_at =
              (if title = None \<and> description = None \<and> status = None \<and> priority = None \<and>
                  tags = None
               then t_updated_at old else now)\<rparr> \<and>
     (title = None \<and> description = None \<and> status = None \<and> priority = None \<and> tags = None
        \<longrightarrow> d' = d) \<and>
     comments d' = comments d \<and>
     (\<forall>j. j \<noteq> ticket_id \<longrightarrow> get_ticket d' j = get_ticket d j)"
proof (cases "title = None \<and> description = None \<and> status = None \<and> priority = None \<and> tags = None")
  case True
  with existing show ?thesis
    by (cases old) (simp add: update_ticket_def)
next
  case False
  let ?ups = "provided Title title @ provided Description description @ provided Status status @
       provided Priority priority @ provided Tags tags"
  let ?d' = "d\<lparr>tickets := sql_update (?ups @ [(Updated_at, now)]) ticket_id (tickets d)\<rparr>"
  have valid: "\<not> (case status of None \<Rightarrow> False | Some s \<Rightarrow> s \<notin> VALID_STATUSES)"
       "\<not> (case priority of None \<Rightarrow> False | Some p \<Rightarrow> p \<notin> VALID_PRIORITIES)"
    using status_ok priority_ok by (auto split: option.splits)
  have res: "update_ticket now d ticket_id title description status priority tags
      = (Inr (get_ticket ?d' ticket_id), ?d')"
    using existing False valid by (auto simp: update_ticket_def Let_def)
  have same: "get_ticket ?d' ticket_id = Some (fold set_column (?ups @ [(Updated_at, now)]) old, cs)"
    using existing by (rule get_ticket_sql_update_same)
  have other: "\<forall>j. j \<noteq> ticket_id \<longrightarrow> get_ticket ?d' j = get_ticket d j"
    by (simp add: get_ticket_sql_update_other)
  let ?new = "\<lparr>t_id = t_id old, t_project = t_project old,
            t_title = (case title of None \<Rightarrow> t_title old | Some v \<Rightarrow> v),
            t_description = (case description of None \<Rightarrow> t_description old | Some v \<Rightarrow> v),
            t_status = (case status of None \<Rightarrow> t_status old | Some v \<Rightarrow> v),
            t_priority = (case priority of None \<Rightarrow> t_priority old | Some v \<Rightarrow> v),
            t_tags = (case tags of None \<Rightarrow> t_tags old | Some v \<Rightarrow> v),
            t_created_at = t_created_at old, t_updated_at = now\<rparr>"
  have folded: "fold set_column (?ups @ [(Updated_at, now)]) old = ?new"
    by (rule fold_set_column_updates)
  have "update_ticket now d ticket_id title description status priority tags
      = (Inr (Some (?new, cs)), ?d')"
    by (simp only: res same folded)
  moreover have "get_ticket ?d' ticket_id = Some (?new, cs)"
    by (simp only: same folded)
  moreover have "comments ?d' = comments d"
    by simp
  ultimately show ?thesis
    using other False by (intro exI [of _ ?new] exI [of _ ?d']) (simp only: if_False simp_thms)
qed

theorem update_ticket_changes_only_provided_witness:
  "get_ticket store1 1 = Some (ticket1, []) \<and>
   ''closed'' \<in> VALID_STATUSES \<and> ''high'' \<in> VALID_PRIORITIES \<and>
   update_ticket ''2026-01-03T08:00:00'' store1 1 None None (Some ''closed'') (Some ''high'') None =
     (Inr (Some (ticket1\<lparr>t_status := ''closed'', t_priority := ''high'',
                         t_updated_at := ''2026-01-03T08:00:00''\<rparr>, [])),
      store1\<lparr>tickets :=
        [ticket1\<lparr>t_status := ''closed'', t_priority := ''high'',
                 t_updated_at := ''2026-01-03T08:00:00''\<rparr>]\<rparr>) \<and>
   update_ticket ''2026-01-03T08:00:00'' store1 1 None None None None None =
     (Inr (Some (ticket1, [])), store1)"
proof -
  have existing: "get_ticket store1 1 = Some (ticket1, [])"
    by (simp add: store_defs)
  have valid: "\<forall>s. Some ''closed'' = Some s \<longrightarrow> s \<in> VALID_STATUSES"
    "\<forall>p. Some ''high'' = Some p \<longrightarrow> p \<in> VALID_PRIORITIES"
    "\<forall>s. (None :: string option) = Some s \<longrightarrow> s \<in> VALID_STATUSES"
    "\<forall>p. (None :: string option) = Some p \<longrightarrow> p \<in> VALID_PRIORITIES"
    by (simp_all add: VALID_STATUSES_def VALID_PRIORITIES_def)
  have closed:
    "update_ticket ''2026-01-03T08:00:00'' store1 1 None None (Some ''closed'') (Some ''high'') None =
       (Inr (Some (ticket1\<lparr>t_status := ''closed'', t_priority := ''high'',
                           t_updated_at := ''2026-01-03T08:00:00''\<rparr>, [])),
        store1\<lparr>tickets :=
          [ticket1\<lparr>t_status := ''closed'', t_priority := ''high'',
                   t_updated_at := ''2026-01-03T08:00:00''\<rparr>]\<rparr>)"
    by (simp add: store_defs update_ticket_def order_by_def Let_def)
  have nothing:
    "update_ticket ''2026-01-03T08:00:00'' store1 1 None None None None None =
       (Inr (Some (ticket1, [])), store1)"
    by (simp add: store_defs update_ticket_def order_by_def Let_def)
  from update_ticket_changes_only_provided [OF existing valid(1) valid(2),
      of "''2026-01-03T08:00:00''" None None None]
    update_ticket_changes_only_provided [OF existing valid(3) valid(4),
      of "''2026-01-03T08:00:00''" None None None]
  show ?thesis
    using existing closed nothing by (simp add: VALID_STATUSES_def VALID_PRIORITIES_def)
qed

subsection \<open>Creating tickets over the lifetime of a store\<close>

lemma create_ticket_success:
  assumes "create_ticket now d project title description priority tags = (Inr r, d')"
  shows "\<exists>n. next_rowid (tickets_seq d) (map t_id (tickets d)) = Some n \<and>
     priority \<in> VALID_PRIORITIES \<and>
     r = Some (\<lparr>t_id = n, t_project = project, t_title = title,
                t_description = description, t_status = ''pending'',
                t_priority = priority, t_tags = tags,
                t_created_at = now, t_updated_at = now\<rparr>,
               order_by comment_order (filter (\<lambda>c. c_ticket_id c = n) (comments d))) \<and>
     tickets_seq d' = n \<and> tickets_seq d < n \<and> (\<forall>t \<in> set (tickets d). t_id t < n)"
proof (cases "next_rowid (tickets_seq d) (map t_id (tickets d))")
  case None
  with assms show ?thesis by (simp add: create_ticket_def split: if_splits)
next
  case (Some n)
  from next_rowid_gt [OF Some] have gt: "tickets_seq d < n" "\<forall>t \<in> set (tickets d). t_id t < n"
    by auto
  then have "find (\<lambda>t. t_id t = n) (tickets d) = None"
    by (auto simp: find_None_iff)
  with assms Some gt show ?thesis
    by (auto simp: create_ticket_def Let_def get_ticket_def find_snoc split: if_splits)
qed

lemma tickets_seq_create:
  "tickets_seq d \<le> tickets_seq (snd (create_ticket now d project title description priority tags))"
proof (cases "next_rowid (tickets_seq d) (map t_id (tickets d))")
  case None
  then show ?thesis by (simp add: create_ticket_def)
next
  case (Some n)
  with next_rowid_gt [OF Some] show ?thesis
    by (simp add: create_ticket_def Let_def)
qed

lemma tickets_seq_perform: "tickets_seq d \<le> tickets_seq (perform c d)"
proof (cases c)
  case (Create_ticket now project title description priority tags)
  then show ?thesis by (simp add: tickets_seq_create)
next
  case (Update_ticket now ticket_id title description status priority tags)
  then show ?thesis
    by (simp add: update_ticket_def Let_def split: option.splits)
next
  case (Delete_ticket ticket_id)
  then show ?thesis by (simp add: delete_ticket_def Let_def)
next
  case (Add_comment now ticket_id author content)
  then show ?thesis by (simp add: add_comment_def Let_def split: option.splits)
qed

lemma created_bounds:
  assumes "i \<in> set (created c d)"
  shows "tickets_seq d < i \<and> i \<le> tickets_seq (perform c d)"
proof (cases c)
  case (Create_ticket now project title description priority tags)
  obtain res d' where eq: "create_ticket now d project title description priority tags = (res, d')"
    by (cases "create_ticket now d project title description priority tags")
  with assms Create_ticket obtain r where "res = Inr (Some r)" "i = t_id (fst r)"
    by (auto split: sum.splits option.splits)
  with eq create_ticket_success [of now d project title description priority tags "Some r" d']
  show ?thesis using Create_ticket by auto
qed (use assms in auto)

lemma run_created_bounded:
  "\<forall>i \<in> set (snd s). i \<le> tickets_seq (fst s) \<Longrightarrow>
   sorted_wrt (<) (snd s) \<Longrightarrow>
   (\<forall>i \<in> set (snd (run cs s)). i \<le> tickets_seq (fst (run cs s))) \<and> sorted_wrt (<) (snd (run cs s))"
proof (induction cs arbitrary: s)
  case Nil
  then show ?case by simp
next
  case (Cons c cs)
  let ?s = "(perform c (fst s), snd s @ created c (fst s))"
  have len: "length (created c (fst s)) \<le> 1"
    by (cases c) (auto split: sum.splits option.splits)
  have a: "\<forall>i \<in> set (snd ?s). i \<le> tickets_seq (fst ?s)"
    using Cons.prems(1) tickets_seq_perform [of "fst s" c] created_bounds [of _ c "fst s"]
    by fastforce
  have "sorted_wrt (<) (created c (fst s))"
    using len by (cases "created c (fst s)") auto
  then have b: "sorted_wrt (<) (snd ?s)"
    using Cons.prems created_bounds [of _ c "fst s"]
    by (fastforce simp: sorted_wrt_append)
  from Cons.IH [OF a b] show ?case by simp
qed

text \<open>
  C8. Let a store start from \<open>init_db\<close> and live through any sequence of creating,
  updating, deleting and commenting calls, and let \<open>earlier\<close> be the ids that the
  \<^verbatim>\<open>create_ticket\<close> calls among them returned, in order. A \<^verbatim>\<open>create_ticket\<close> that then
  succeeds returns a ticket that is stored under its id, has status \<^verbatim>\<open>pending\<close>, has
  \<open>created_at\<close> and \<open>updated_at\<close> both equal to the time of the call, and has an id
  strictly greater than every earlier id and than the id of every ticket in the store;
  the ids returned so far are strictly increasing, hence pairwise different.
\<close>

theorem create_ticket_fresh_increasing_id:
  assumes history: "run calls (init_db, []) = (d, earlier)"
    and success: "create_ticket now d project title description priority tags = (Inr r, d')"
  shows "\<exists>t cs. r = Some (t, cs) \<and> get_ticket d' (t_id t) = Some (t, cs) \<and>
     t_status t = ''pending'' \<and> t_created_at t = now \<and> t_updated_at t = now \<and>
     (\<forall>i \<in> set earlier. i < t_id t) \<and>
     (\<forall>x \<in> set (tickets d). t_id x < t_id t) \<and>
     sorted_wrt (<) (earlier @ [t_id t])"
proof -
  have inv: "(\<forall>i \<in> set earlier. i \<le> tickets_seq d) \<and> sorted_wrt (<) earlier"
    using run_created_bounded [of "(init_db, [])" calls] history by simp
  from create_ticket_success [OF success] obtain n where
    n: "r = Some (\<lparr>t_id = n, t_project = project, t_title = title,
                t_description = description, t_status = ''pending'',
                t_priority = priority, t_tags = tags,
                t_created_at = now, t_updated_at = now\<rparr>,
               order_by comment_order (filter (\<lambda>c. c_ticket_id c = n) (comments d)))"
      "tickets_seq d < n" "\<forall>t \<in> set (tickets d). t_id t < n"
      "next_rowid (tickets_seq d) (map t_id (tickets d)) = Some n"
    by blast
  have got: "fst (create_ticket now d project title description priority tags) = Inr (get_ticket d' n)"
    using success n(4) by (auto simp: create_ticket_def Let_def split: if_splits)
  with success have "get_ticket d' n = r" by simp
  with n inv show ?thesis
    by (fastforce simp: sorted_wrt_append)
qed

theorem create_ticket_fresh_increasing_id_witness:
  "run [Create_ticket ''2026-01-01T10:00:00'' ''/p'' ''T'' ''D'' ''medium'' [],
        Create_ticket ''2026-01-01T11:00:00'' ''/p'' ''T2'' ''D2'' ''low'' [],
        Delete_ticket 2]
       (init_db, []) =
     (\<lparr>tickets = [ticket1], comments = [], tickets_seq = 2, comments_seq = 0\<rparr>, [1, 2]) \<and>
   create_ticket ''2026-01-02T09:00:00''
       \<lparr>tickets = [ticket1], comments = [], tickets_seq = 2, comments_seq = 0\<rparr>
       ''/p'' ''T3'' ''D3'' ''high'' ''bug'' =
     (Inr (Some (\<lparr>t_id = 3, t_project = ''/p'', t_title = ''T3'', t_description = ''D3'',
                  t_status = ''pending'', t_priority = ''high'', t_tags = ''bug'',
                  t_created_at = ''2026-01-02T09:00:00'',
                  t_updated_at = ''2026-01-02T09:00:00''\<rparr>, [])),
      \<lparr>tickets = [ticket1,
                  \<lparr>t_id = 3, t_project = ''/p'', t_title = ''T3'', t_description = ''D3'',
                   t_status = ''pending'', t_priority = ''high'', t_tags = ''bug'',
                   t_created_at = ''2026-01-02T09:00:00'',
                   t_updated_at = ''2026-01-02T09:00:00''\<rparr>],
       comments = [], tickets_seq = 3, comments_seq = 0\<rparr>) \<and>
   sorted_wrt (<) [1, 2, 3 :: int]"
proof -
  have history:
    "run [Create_ticket ''2026-01-01T10:00:00'' ''/p'' ''T'' ''D'' ''medium'' [],
          Create_ticket ''2026-01-01T11:00:00'' ''/p'' ''T2'' ''D2'' ''low'' [],
          Delete_ticket 2]
         (init_db, []) =
       (\<lparr>tickets = [ticket1], comments = [], tickets_seq = 2, comments_seq = 0\<rparr>, [1, 2])"
    by (simp add: store_defs create_ticket_def delete_ticket_def order_by_def Let_def)
  have success:
    "create_ticket ''2026-01-02T09:00:00''
         \<lparr>tickets = [ticket1], comments = [], tickets_seq = 2, comments_seq = 0\<rparr>
         ''/p'' ''T3'' ''D3'' ''high'' ''bug'' =
       (Inr (Some (\<lparr>t_id = 3, t_project = ''/p'', t_title = ''T3'', t_description = ''D3'',
                    t_status = ''pending'', t_priority = ''high'', t_tags = ''bug'',
                    t_created_at = ''2026-01-02T09:00:00'',
                    t_updated_at = ''2026-01-02T09:00:00''\<rparr>, [])),
        \<lparr>tickets = [ticket1,
                    \<lparr>t_id = 3, t_project = ''/p'', t_title = ''T3'', t_description = ''D3'',
                     t_status = ''pending'', t_priority = ''high'', t_tags = ''bug'',
                     t_created_at = ''2026-01-02T09:00:00'',
                     t_updated_at = ''2026-01-02T09:00:00''\<rparr>],
         comments = [], tickets_seq = 3, comments_seq = 0\<rparr>)"
    by (simp add: store_defs create_ticket_def order_by_def Let_def)
  from create_ticket_fresh_increasing_id [OF history success] show ?thesis
    using history success by auto
qed

subsection \<open>Ordering of query results and validation of filters\<close>

lemma ticket_order_total: "ticket_order a b \<or> ticket_order b a"
  by (auto simp: ticket_order_def)

lemma ticket_order_trans: "ticket_order a b \<Longrightarrow> ticket_order b c \<Longrightarrow> ticket_order a c"
  by (auto simp: ticket_order_def)

lemma sorted_wrt_insert_row:
  assumes total: "\<And>a b. le a b \<or> le b a" and trans: "\<And>a b c. le a b \<Longrightarrow> le b c \<Longrightarrow> le a c"
  shows "sorted_wrt le xs \<Longrightarrow> sorted_wrt le (insert_row le x xs)"
proof (induction xs)
  case Nil
  then show ?case by simp
next
  case (Cons y ys)
  show ?case
  proof (cases "le x y")
    case True
    with Cons.prems trans show ?thesis by auto
  next
    case False
    with total have "le y x" by blast
    with Cons False show ?thesis by auto
  qed
qed

lemma order_by_Cons: "order_by le (x # xs) = insert_row le x (order_by le xs)"
  by (simp add: order_by_def)

lemma sorted_wrt_order_by:
  assumes total: "\<And>a b. le a b \<or> le b a" and trans: "\<And>a b c. le a b \<Longrightarrow> le b c \<Longrightarrow> le a c"
  shows "sorted_wrt le (order_by le xs)"
proof (induction xs)
  case Nil
  then show ?case by simp
next
  case (Cons x xs)
  with sorted_wrt_insert_row [of le, OF total trans] show ?case
    by (simp add: order_by_Cons)
qed

lemma count_list_insert_row: "count_list (insert_row le x xs) y = count_list (x # xs) y"
  by (induction xs) auto

lemma count_list_order_by: "count_list (order_by le xs) y = count_list xs y"
  by (induction xs) (simp_all add: order_by_Cons count_list_insert_row)

lemma count_list_filter: "count_list (filter P xs) y = (if P y then count_list xs y else 0)"
  by (induction xs) auto

lemma distinct_insert_row: "distinct (insert_row le x xs) \<longleftrightarrow> x \<notin> set xs \<and> distinct xs"
  by (induction xs) auto

lemma distinct_order_by: "distinct (order_by le xs) \<longleftrightarrow> distinct xs"
  by (induction xs) (simp_all add: order_by_Cons distinct_insert_row)

lemma sorted_ticket_order: "sorted_wrt ticket_order (order_by ticket_order xs)"
  using ticket_order_total ticket_order_trans by (rule sorted_wrt_order_by)

text \<open>
  C9 as stated fails: an empty status or priority filter lies outside the enumerated set,
  yet \<^verbatim>\<open>list_tickets\<close> does not raise; the truth test \<^verbatim>\<open>if status:\<close> treats it as an
  absent filter and the call returns the unfiltered list.
\<close>

theorem list_tickets_empty_filter_counterexample:
  "[] \<notin> VALID_STATUSES \<and> [] \<notin> VALID_PRIORITIES \<and>
   list_tickets store1 None (Some []) None None = Inr [ticket1] \<and>
   list_tickets store1 None None (Some []) None = Inr [ticket1]"
  by (simp add: store_defs query_defs)

text \<open>
  C9 (amended). Whenever the status filter is a non-empty string outside
  \<open>VALID_STATUSES\<close>, or the priority filter is a non-empty string outside
  \<open>VALID_PRIORITIES\<close>, \<^verbatim>\<open>list_tickets\<close> raises \<open>ValueError\<close>. An empty status or
  priority filter is not validated: the call behaves as if that filter were omitted.
\<close>

theorem list_tickets_rejects_invalid_filter:
  "((\<exists>s. status = Some s \<and> s \<noteq> [] \<and> s \<notin> VALID_STATUSES) \<or>
    (\<exists>p. priority = Some p \<and> p \<noteq> [] \<and> p \<notin> VALID_PRIORITIES) \<longrightarrow>
      list_tickets d project status priority tag = Inl ValueError) \<and>
   list_tickets d project (Some []) priority tag = list_tickets d project None priority tag \<and>
   list_tickets d project status (Some []) tag = list_tickets d project status None tag"
proof -
  have raises: "(\<exists>s. status = Some s \<and> s \<noteq> [] \<and> s \<notin> VALID_STATUSES) \<or>
      (\<exists>p. priority = Some p \<and> p \<noteq> [] \<and> p \<notin> VALID_PRIORITIES) \<longrightarrow>
      list_tickets d project status priority tag = Inl ValueError"
    by (auto simp: list_tickets_def rejected_def split: if_splits)
  have "list_where project (Some []) priority tag = list_where project None priority tag"
    by (simp add: list_where_def fun_eq_iff)
  then have status: "list_tickets d project (Some []) priority tag =
      list_tickets d project None priority tag"
    by (simp add: list_tickets_def rejected_def)
  have "list_where project status (Some []) tag = list_where project status None tag"
    by (simp add: list_where_def fun_eq_iff)
  then have priority: "list_tickets d project status (Some []) tag =
      list_tickets d project status None tag"
    by (simp add: list_tickets_def rejected_def)
  from raises status priority show ?thesis by blast
qed

theorem list_tickets_rejects_invalid_filter_witness:
  "''done'' \<noteq> [] \<and> ''done'' \<notin> VALID_STATUSES \<and>
   list_tickets store1 None (Some ''done'') None None = Inl ValueError \<and>
   ''urgent'' \<noteq> [] \<and> ''urgent'' \<notin> VALID_PRIORITIES \<and>
   list_tickets store1 None (Some ''closed'') (Some ''urgent'') None = Inl ValueError \<and>
   list_tickets store1 None (Some []) None None = list_tickets store1 None None None None"
  using list_tickets_rejects_invalid_filter [of "Some ''done''" None store1 None None]
    list_tickets_rejects_invalid_filter [of "Some ''closed''" "Some ''urgent''" store1 None None]
  by (simp add: VALID_STATUSES_def VALID_PRIORITIES_def)

subsection \<open>What \<^verbatim>\<open>LIKE\<close> matches\<close>

lemma starts_with_iff: "starts_with s q \<longleftrightarrow> (\<exists>w. s = q @ w)"
  by (induction s q rule: starts_with.induct) auto

lemma occurs_in_iff: "occurs_in q s \<longleftrightarrow> (\<exists>u w. s = u @ q @ w)"
proof (induction s)
  case Nil
  then show ?case by auto
next
  case (Cons c cs)
  show ?case
  proof
    assume "occurs_in q (c # cs)"
    then consider "starts_with (c # cs) q" | "occurs_in q cs" by auto
    then show "\<exists>u w. c # cs = u @ q @ w"
    proof cases
      case 1
      then obtain w where "c # cs = q @ w" by (auto simp: starts_with_iff)
      then have "c # cs = [] @ q @ w" by simp
      then show ?thesis by blast
    next
      case 2
      with Cons obtain u w where "cs = u @ q @ w" by blast
      then have "c # cs = (c # u) @ q @ w" by simp
      then show ?thesis by blast
    qed
  next
    assume "\<exists>u w. c # cs = u @ q @ w"
    then obtain u w where eq: "c # cs = u @ q @ w" by blast
    show "occurs_in q (c # cs)"
    proof (cases u)
      case Nil
      with eq have "starts_with (c # cs) q" by (auto simp: starts_with_iff)
      then show ?thesis by simp
    next
      case (Cons a u')
      with eq have "cs = u' @ q @ w" by simp
      with Cons.IH have "occurs_in q cs" by blast
      then show ?thesis by simp
    qed
  qed
qed

lemma like_percent [simp]: "like ''%'' s"
  by (induction s) auto

lemma starts_with_Nil [simp]: "starts_with [] q \<longleftrightarrow> q = []"
  by (cases q) auto

lemma like_prefix:
  "no_wildcard q \<Longrightarrow>
   like (q @ ''%'') s \<longleftrightarrow> starts_with (map ascii_lower s) (map ascii_lower q)"
proof (induction q arbitrary: s)
  case Nil
  then show ?case by simp
next
  case (Cons p ps)
  then have ps: "no_wildcard ps" and p: "p \<noteq> CHR ''%''" "p \<noteq> CHR ''_''"
    by (auto simp: no_wildcard_def)
  show ?case
  proof (cases s)
    case Nil
    with p show ?thesis by simp
  next
    case (Cons c cs)
    with p Cons.IH [OF ps, of cs] show ?thesis by auto
  qed
qed

lemma like_contains:
  assumes "no_wildcard q"
  shows "like (''%'' @ q @ ''%'') s \<longleftrightarrow> occurs_in (map ascii_lower q) (map ascii_lower s)"
proof (induction s)
  case Nil
  from like_prefix [OF assms, of "[]"] show ?case by simp
next
  case (Cons c cs)
  from like_prefix [OF assms, of "c # cs"] Cons show ?case by simp
qed

lemma ascii_lower_comma: "ascii_lower c = CHR '','' \<longleftrightarrow> c = CHR '',''"
proof (cases "CHR ''A'' \<le> c \<and> c \<le> CHR ''Z''")
  case True
  then have "65 \<le> (of_char c :: nat)" "(of_char c :: nat) \<le> 90"
    by (simp_all add: less_eq_char_def)
  then have "take_bit 8 (of_char c + 32 :: nat) \<noteq> 44"
    by (simp add: take_bit_eq_mod)
  moreover from True have "c \<noteq> CHR '',''" by auto
  ultimately show ?thesis using True
    by (simp add: ascii_lower_def char_of_eq_iff)
next
  case False
  then show ?thesis by (auto simp: ascii_lower_def)
qed


lemma tag_elements_ne [simp]: "tag_elements s \<noteq> []"
  by (cases s) (auto split: list.splits)

lemma tag_elements_comma_free: "e \<in> set (tag_elements s) \<Longrightarrow> CHR '','' \<notin> set e"
  by (induction s arbitrary: e) (auto split: if_splits list.splits)

lemma tag_elements_join:
  "CHR '','' # s = concat (map (\<lambda>e. CHR '','' # e) (tag_elements s))"
  by (induction s) (auto split: list.splits)

lemma tag_elements_lower:
  "tag_elements (map ascii_lower s) = map (map ascii_lower) (tag_elements s)"
  by (induction s) (auto simp: ascii_lower_comma split: list.splits)

lemma starts_with_segment:
  "CHR '','' \<notin> set e \<Longrightarrow> CHR '','' \<notin> set u \<Longrightarrow>
   starts_with (e @ CHR '','' # r) (u @ '','') \<longleftrightarrow> e = u"
proof (induction e arbitrary: u)
  case Nil
  then show ?case by (cases u) auto
next
  case (Cons c e)
  then show ?case by (cases u) auto
qed

lemma occurs_in_skip_segment:
  "CHR '','' \<notin> set e \<Longrightarrow> occurs_in (CHR '','' # p) (e @ r) \<longleftrightarrow> occurs_in (CHR '','' # p) r"
  by (induction e) auto

lemma occurs_in_delimited:
  assumes u: "CHR '','' \<notin> set u"
  shows "\<forall>e \<in> set segs. CHR '','' \<notin> set e \<Longrightarrow>
     occurs_in (CHR '','' # u @ '','') (concat (map (\<lambda>e. CHR '','' # e) segs) @ '','')
       \<longleftrightarrow> u \<in> set segs"
proof (induction segs)
  case Nil
  then show ?case by simp
next
  case (Cons e rest)
  let ?R = "concat (map (\<lambda>e. CHR '','' # e) rest) @ '',''"
  obtain r where r: "?R = CHR '','' # r" by (cases rest) auto
  from Cons.prems have e: "CHR '','' \<notin> set e" and rest: "\<forall>e \<in> set rest. CHR '','' \<notin> set e"
    by auto
  have "occurs_in (CHR '','' # u @ '','') (CHR '','' # e @ ?R)
      \<longleftrightarrow> starts_with (e @ ?R) (u @ '','') \<or> occurs_in (CHR '','' # u @ '','') (e @ ?R)"
    by simp
  also have "starts_with (e @ ?R) (u @ '','') \<longleftrightarrow> e = u"
    unfolding r using e u by (rule starts_with_segment)
  also have "occurs_in (CHR '','' # u @ '','') (e @ ?R) \<longleftrightarrow> occurs_in (CHR '','' # u @ '','') ?R"
    using e by (rule occurs_in_skip_segment)
  also have "\<dots> \<longleftrightarrow> u \<in> set rest"
    using rest by (rule Cons.IH)
  finally show ?case by auto
qed

lemma occurs_in_tag_elements:
  assumes "CHR '','' \<notin> set u"
  shows "occurs_in ('','' @ u @ '','') ('','' @ s @ '','') \<longleftrightarrow> u \<in> set (tag_elements s)"
proof -
  have eq: "'','' @ s @ '','' = concat (map (\<lambda>e. CHR '','' # e) (tag_elements s)) @ '',''"
    using tag_elements_join [of s] by simp
  have "\<forall>e \<in> set (tag_elements s). CHR '','' \<notin> set e"
    by (simp add: tag_elements_comma_free)
  from occurs_in_delimited [OF assms this] show ?thesis
    unfolding eq by simp
qed

lemma like_tag:
  assumes "no_wildcard g"
  shows "like (''%,'' @ g @ '',%'') ('','' @ tags @ '','') \<longleftrightarrow>
     occurs_in ('','' @ map ascii_lower g @ '','') ('','' @ map ascii_lower tags @ '','')"
proof -
  have "no_wildcard ('','' @ g @ '','')"
    using assms by (simp add: no_wildcard_def)
  from like_contains [OF this, of "'','' @ tags @ '',''"] show ?thesis
    by (simp add: ascii_lower_def)
qed

lemma like_tag_elements:
  assumes "no_wildcard g" "CHR '','' \<notin> set g"
  shows "like (''%,'' @ g @ '',%'') ('','' @ tags @ '','') \<longleftrightarrow>
     (\<exists>e \<in> set (tag_elements tags). map ascii_lower e = map ascii_lower g)"
proof -
  have "CHR '','' \<notin> set (map ascii_lower g)"
  proof
    assume "CHR '','' \<in> set (map ascii_lower g)"
    then obtain x where x: "x \<in> set g" and "ascii_lower x = CHR '',''" by auto
    then have "x = CHR '',''" by (simp add: ascii_lower_comma)
    with x assms(2) show False by blast
  qed
  then have "occurs_in ('','' @ map ascii_lower g @ '','') ('','' @ map ascii_lower tags @ '','')
      \<longleftrightarrow> map ascii_lower g \<in> set (tag_elements (map ascii_lower tags))"
    by (rule occurs_in_tag_elements)
  also have "\<dots> \<longleftrightarrow> (\<exists>e \<in> set (tag_elements tags). map ascii_lower e = map ascii_lower g)"
    unfolding tag_elements_lower by (auto simp: image_iff) metis
  finally show ?thesis
    using like_tag [OF assms(1), of tags] by blast
qed

text \<open>
  C2 as stated fails. A tag filter with a wildcard matches tags of which it is no element:
  \<^verbatim>\<open>bug%\<close> selects the ticket tagged \<^verbatim>\<open>bugfix\<close>. A tag filter also matches elements
  that differ from it in the case of ASCII letters: \<^verbatim>\<open>BUG\<close> selects the tickets tagged
  \<^verbatim>\<open>bug\<close> and \<^verbatim>\<open>bug,urgent\<close>.
\<close>

theorem tag_filter_exact_element_counterexample:
  "list_tickets store3 None None None (Some ''bug%'') =
     Inr [ticket_row 2 ''b'' ''high'' ''bug'' ''2026-01-01T10:01:00'',
          ticket_row 3 ''c'' ''medium'' ''bugfix'' ''2026-01-01T10:02:00'',
          ticket_row 1 ''a'' ''low'' ''bug,urgent'' ''2026-01-01T10:00:00''] \<and>
   tag_elements ''bugfix'' = [''bugfix''] \<and>
   \<not> occurs_in '',bug%,'' '',bugfix,'' \<and>
   list_tickets store3 None None None (Some ''BUG'') =
     Inr [ticket_row 2 ''b'' ''high'' ''bug'' ''2026-01-01T10:01:00'',
          ticket_row 1 ''a'' ''low'' ''bug,urgent'' ''2026-01-01T10:00:00''] \<and>
   tag_elements ''bug'' = [''bug''] \<and>
   tag_elements ''bug,urgent'' = [''bug'', ''urgent''] \<and>
   \<not> occurs_in '',BUG,'' '',bug,'' \<and> \<not> occurs_in '',BUG,'' '',bug,urgent,''"
  by (simp add: store_defs query_defs)

text \<open>
  C2 (amended). For every non-empty tag filter \<open>g\<close> that contains neither \<^verbatim>\<open>%\<close> nor
  \<^verbatim>\<open>_\<close>, \<^verbatim>\<open>list_tickets\<close> with only that tag filter returns, and it returns a ticket of
  the table if and only if \<open>g\<close> between two commas occurs in the ticket's tags string
  between two commas, the ASCII letters compared without regard to case. When \<open>g\<close> has no
  comma either, this is the case if and only if \<open>g\<close> equals, up to the case of ASCII
  letters, one of the comma-separated elements of the tags string; it never matches as a
  mere part of a longer element.
\<close>

theorem tag_filter_matches_elements:
  assumes nonempty: "g \<noteq> []" and plain: "no_wildcard g"
  shows "\<exists>ts. list_tickets d None None None (Some g) = Inr ts \<and>
     (\<forall>x \<in> set (tickets d).
        (x \<in> set ts \<longleftrightarrow>
           occurs_in ('','' @ map ascii_lower g @ '','')
             ('','' @ map ascii_lower (t_tags x) @ '','')) \<and>
        (CHR '','' \<notin> set g \<longrightarrow>
           (x \<in> set ts \<longleftrightarrow>
              (\<exists>e \<in> set (tag_elements (t_tags x)). map ascii_lower e = map ascii_lower g))))"
proof -
  let ?ts = "order_by ticket_order (filter (list_where None None None (Some g)) (tickets d))"
  have result: "list_tickets d None None None (Some g) = Inr ?ts"
    by (simp add: list_tickets_def rejected_def)
  have member: "x \<in> set ?ts \<longleftrightarrow>
      x \<in> set (tickets d) \<and> like (''%,'' @ g @ '',%'') ('','' @ t_tags x @ '','')" for x
    using nonempty by (simp add: list_where_def)
  have "x \<in> set ?ts \<longleftrightarrow>
      occurs_in ('','' @ map ascii_lower g @ '','') ('','' @ map ascii_lower (t_tags x) @ '','')"
    if "x \<in> set (tickets d)" for x
    using that member [of x] like_tag [OF plain, of "t_tags x"] by blast
  moreover have "x \<in> set ?ts \<longleftrightarrow>
      (\<exists>e \<in> set (tag_elements (t_tags x)). map ascii_lower e = map ascii_lower g)"
    if "x \<in> set (tickets d)" "CHR '','' \<notin> set g" for x
    using that member [of x] like_tag_elements [OF plain that(2), of "t_tags x"] by blast
  ultimately show ?thesis
    using result by blast
qed

theorem tag_filter_matches_elements_witness:
  "''bug'' \<noteq> [] \<and> no_wildcard ''bug'' \<and> CHR '','' \<notin> set ''bug'' \<and>
   list_tickets store3 None None None (Some ''bug'') =
     Inr [ticket_row 2 ''b'' ''high'' ''bug'' ''2026-01-01T10:01:00'',
          ticket_row 1 ''a'' ''low'' ''bug,urgent'' ''2026-01-01T10:00:00''] \<and>
   tag_elements ''bug,urgent'' = [''bug'', ''urgent''] \<and>
   tag_elements ''bug'' = [''bug''] \<and>
   tag_elements ''bugfix'' = [''bugfix''] \<and>
   tag_elements [] = [[]]"
proof -
  have given: "''bug'' \<noteq> []" "no_wildcard ''bug''"
    by (simp_all add: no_wildcard_def)
  have result: "list_tickets store3 None None None (Some ''bug'') =
     Inr [ticket_row 2 ''b'' ''high'' ''bug'' ''2026-01-01T10:01:00'',
          ticket_row 1 ''a'' ''low'' ''bug,urgent'' ''2026-01-01T10:00:00'']"
    by (simp add: store_defs query_defs)
  from tag_filter_matches_elements [OF given, of store3] show ?thesis
    using given result by simp
qed

subsection \<open>Ordering and filtering of \<^verbatim>\<open>list_tickets\<close>, in the specification's terms\<close>

text \<open>
  C1 as stated fails in its second half. An empty filter is provided but ignored:
  \<^verbatim>\<open>project=""\<close> returns the tickets of projects \<^verbatim>\<open>/p\<close> and \<^verbatim>\<open>/q\<close>, none of which has
  the project \<^verbatim>\<open>""\<close>. A tag filter matches through \<^verbatim>\<open>LIKE\<close>: \<^verbatim>\<open>bug%\<close> returns the ticket
  tagged \<^verbatim>\<open>bugfix\<close>, and \<^verbatim>\<open>BUG\<close> returns the ticket tagged \<^verbatim>\<open>bug\<close>, though neither
  filter is an element of those tags.
\<close>

theorem list_tickets_provided_filters_counterexample:
  "list_tickets store5 (Some []) None None None =
     Inr [(ticket_row 2 ''b'' ''high'' ''bugfix'' ''2026-01-01T10:01:00'')\<lparr>t_project := ''/q''\<rparr>,
          ticket_row 1 ''a'' ''low'' ''bug'' ''2026-01-01T10:00:00''] \<and>
   t_project ((ticket_row 2 ''b'' ''high'' ''bugfix'' ''2026-01-01T10:01:00'')\<lparr>t_project := ''/q''\<rparr>)
     \<noteq> [] \<and>
   t_project (ticket_row 1 ''a'' ''low'' ''bug'' ''2026-01-01T10:00:00'') \<noteq> [] \<and>
   list_tickets store5 None None None (Some ''bug%'') =
     Inr [(ticket_row 2 ''b'' ''high'' ''bugfix'' ''2026-01-01T10:01:00'')\<lparr>t_project := ''/q''\<rparr>,
          ticket_row 1 ''a'' ''low'' ''bug'' ''2026-01-01T10:00:00''] \<and>
   tag_elements ''bugfix'' = [''bugfix''] \<and> tag_elements ''bug'' = [''bug''] \<and>
   \<not> occurs_in '',bug%,'' '',bugfix,'' \<and> \<not> occurs_in '',bug%,'' '',bug,'' \<and>
   list_tickets store5 None None None (Some ''BUG'') =
     Inr [ticket_row 1 ''a'' ''low'' ''bug'' ''2026-01-01T10:00:00''] \<and>
   \<not> occurs_in '',BUG,'' '',bug,''"
  by (simp add: store_defs query_defs)

text \<open>
  C1 (amended). Whenever \<^verbatim>\<open>list_tickets\<close> returns, every ticket of the result stands
  before every later one in the order "smaller priority rank first, and among equal ranks
  the larger \<open>created_at\<close> first", where high ranks before medium and medium before low.
  When the tag filter, if any, contains neither \<^verbatim>\<open>%\<close> nor \<^verbatim>\<open>_\<close>, the result holds exactly
  the tickets of the table that satisfy every filter provided as a non-empty string, each
  as often as the table holds it; a filter that is \<^verbatim>\<open>None\<close> or the empty string does not
  restrict the result. A ticket satisfies a project, status or priority filter when the
  field equals it, and a tag filter \<open>g\<close> when \<open>g\<close> between two commas occurs in the tags
  string between two commas, the ASCII letters compared without regard to case; for a
  \<open>g\<close> without a comma that is when \<open>g\<close> equals, up to the case of ASCII letters, one of
  the comma-separated elements of the tags string.
\<close>

theorem list_tickets_sorted_and_complete:
  assumes result: "list_tickets d project status priority tag = Inr ts"
    and plain: "\<forall>g. tag = Some g \<longrightarrow> no_wildcard g"
  shows "sorted_wrt (\<lambda>a b.
             priority_rank (t_priority a) < priority_rank (t_priority b) \<or>
             (priority_rank (t_priority a) = priority_rank (t_priority b) \<and>
              t_created_at b \<le> t_created_at a)) ts \<and>
         priority_rank ''high'' < priority_rank ''medium'' \<and>
         priority_rank ''medium'' < priority_rank ''low'' \<and>
         set ts = {t \<in> set (tickets d).
                    (\<forall>p. project = Some p \<and> p \<noteq> [] \<longrightarrow> t_project t = p) \<and>
                    (\<forall>s. status = Some s \<and> s \<noteq> [] \<longrightarrow> t_status t = s) \<and>
                    (\<forall>p. priority = Some p \<and> p \<noteq> [] \<longrightarrow> t_priority t = p) \<and>
                    (\<forall>g. tag = Some g \<and> g \<noteq> [] \<longrightarrow>
                        occurs_in ('','' @ map ascii_lower g @ '','')
                          ('','' @ map ascii_lower (t_tags t) @ '','') \<and>
                        (CHR '','' \<notin> set g \<longrightarrow>
                           (\<exists>e \<in> set (tag_elements (t_tags t)).
                               map ascii_lower e = map ascii_lower g)))} \<and>
         (\<forall>t \<in> set ts. count_list ts t = count_list (tickets d) t)"
proof -
  let ?P = "list_where project status priority tag"
  from result have ts: "ts = order_by ticket_order (filter ?P (tickets d))"
    by (simp add: list_tickets_def split: if_splits)
  have "sorted_wrt ticket_order ts"
    unfolding ts by (rule sorted_ticket_order)
  then have sorted: "sorted_wrt (\<lambda>a b.
             priority_rank (t_priority a) < priority_rank (t_priority b) \<or>
             (priority_rank (t_priority a) = priority_rank (t_priority b) \<and>
              t_created_at b \<le> t_created_at a)) ts"
    by (simp add: ticket_order_def [abs_def])
  have by_equality: "(case given v of None \<Rightarrow> True | Some p \<Rightarrow> x = p) \<longleftrightarrow>
      (\<forall>p. v = Some p \<and> p \<noteq> [] \<longrightarrow> x = p)" for v and x :: string
    by (cases v) auto
  have by_tag: "(case given tag of None \<Rightarrow> True
        | Some g \<Rightarrow> like (''%,'' @ g @ '',%'') ('','' @ tags @ '','')) \<longleftrightarrow>
      (\<forall>g. tag = Some g \<and> g \<noteq> [] \<longrightarrow>
          occurs_in ('','' @ map ascii_lower g @ '','') ('','' @ map ascii_lower tags @ '','') \<and>
          (CHR '','' \<notin> set g \<longrightarrow>
             (\<exists>e \<in> set (tag_elements tags). map ascii_lower e = map ascii_lower g)))" for tags
  proof (cases tag)
    case None
    then show ?thesis by simp
  next
    case (Some g)
    with plain have g: "no_wildcard g" by simp
    show ?thesis
    proof (cases "g = []")
      case True
      with Some show ?thesis by simp
    next
      case False
      have "like (''%,'' @ g @ '',%'') ('','' @ tags @ '','') \<longleftrightarrow>
          occurs_in ('','' @ map ascii_lower g @ '','') ('','' @ map ascii_lower tags @ '','')"
        by (rule like_tag [OF g])
      moreover have "like (''%,'' @ g @ '',%'') ('','' @ tags @ '','') \<longleftrightarrow>
          (\<exists>e \<in> set (tag_elements tags). map ascii_lower e = map ascii_lower g)"
        if "CHR '','' \<notin> set g"
        using g that by (rule like_tag_elements)
      ultimately show ?thesis
        using Some False by auto
    qed
  qed
  have P: "?P t \<longleftrightarrow>
        (\<forall>p. project = Some p \<and> p \<noteq> [] \<longrightarrow> t_project t = p) \<and>
        (\<forall>s. status = Some s \<and> s \<noteq> [] \<longrightarrow> t_status t = s) \<and>
        (\<forall>p. priority = Some p \<and> p \<noteq> [] \<longrightarrow> t_priority t = p) \<and>
        (\<forall>g. tag = Some g \<and> g \<noteq> [] \<longrightarrow>
            occurs_in ('','' @ map ascii_lower g @ '','')
              ('','' @ map ascii_lower (t_tags t) @ '','') \<and>
            (CHR '','' \<notin> set g \<longrightarrow>
               (\<exists>e \<in> set (tag_elements (t_tags t)).
                   map ascii_lower e = map ascii_lower g)))" for t
    unfolding list_where_def by_equality by_tag ..
  have members: "set ts = {t \<in> set (tickets d). ?P t}"
    unfolding ts by simp
  have count: "\<forall>t \<in> set ts. count_list ts t = count_list (tickets d) t"
    unfolding ts by (simp add: count_list_order_by count_list_filter)
  have ranks: "priority_rank ''high'' < priority_rank ''medium''"
    "priority_rank ''medium'' < priority_rank ''low''"
    by (simp_all add: priority_rank_def)
  show ?thesis
    using sorted members count ranks unfolding P by blast
qed

theorem list_tickets_sorted_and_complete_witness:
  "list_tickets store3 None None None None =
     Inr [ticket_row 4 ''d'' ''high'' [] ''2026-01-01T10:03:00.250000'',
          ticket_row 2 ''b'' ''high'' ''bug'' ''2026-01-01T10:01:00'',
          ticket_row 3 ''c'' ''medium'' ''bugfix'' ''2026-01-01T10:02:00'',
          ticket_row 1 ''a'' ''low'' ''bug,urgent'' ''2026-01-01T10:00:00''] \<and>
   no_wildcard ''bug'' \<and>
   list_tickets store3 (Some ''/p'') (Some ''pending'') None (Some ''bug'') =
     Inr [ticket_row 2 ''b'' ''high'' ''bug'' ''2026-01-01T10:01:00'',
          ticket_row 1 ''a'' ''low'' ''bug,urgent'' ''2026-01-01T10:00:00''] \<and>
   list_tickets store3 (Some ''/p'') (Some ''pending'') (Some ''high'') (Some ''bug'') =
     Inr [ticket_row 2 ''b'' ''high'' ''bug'' ''2026-01-01T10:01:00''] \<and>
   list_tickets store5 (Some ''/q'') None None (Some ''bug'') = Inr [] \<and>
   tag_elements ''bug,urgent'' = [''bug'', ''urgent''] \<and> tag_elements ''bug'' = [''bug''] \<and>
   tag_elements ''bugfix'' = [''bugfix''] \<and> tag_elements [] = [[]]"
proof -
  have every:
    "list_tickets store3 None None None None =
       Inr [ticket_row 4 ''d'' ''high'' [] ''2026-01-01T10:03:00.250000'',
            ticket_row 2 ''b'' ''high'' ''bug'' ''2026-01-01T10:01:00'',
            ticket_row 3 ''c'' ''medium'' ''bugfix'' ''2026-01-01T10:02:00'',
            ticket_row 1 ''a'' ''low'' ''bug,urgent'' ''2026-01-01T10:00:00'']"
    by (simp add: store_defs query_defs)
  have bugs:
    "list_tickets store3 (Some ''/p'') (Some ''pending'') None (Some ''bug'') =
       Inr [ticket_row 2 ''b'' ''high'' ''bug'' ''2026-01-01T10:01:00'',
            ticket_row 1 ''a'' ''low'' ''bug,urgent'' ''2026-01-01T10:00:00'']"
    by (simp add: store_defs query_defs)
  have high_bugs:
    "list_tickets store3 (Some ''/p'') (Some ''pending'') (Some ''high'') (Some ''bug'') =
       Inr [ticket_row 2 ''b'' ''high'' ''bug'' ''2026-01-01T10:01:00'']"
    by (simp add: store_defs query_defs)
  have other_project: "list_tickets store5 (Some ''/q'') None None (Some ''bug'') = Inr []"
    by (simp add: store_defs query_defs)
  have no_tag: "\<forall>g. (None :: string option) = Some g \<longrightarrow> no_wildcard g"
    by simp
  have bug: "\<forall>g. Some ''bug'' = Some g \<longrightarrow> no_wildcard g" "no_wildcard ''bug''"
    by (simp_all add: no_wildcard_def)
  from list_tickets_sorted_and_complete [OF every no_tag]
    list_tickets_sorted_and_complete [OF bugs bug(1)]
    list_tickets_sorted_and_complete [OF high_bugs bug(1)]
    list_tickets_sorted_and_complete [OF other_project bug(1)]
  show ?thesis
    using every bugs high_bugs other_project bug(2) by simp
qed

subsection \<open>Searching\<close>

lemma set_join_row:
  "set (case filter P cs of [] \<Rightarrow> [(t, None)] | ys \<Rightarrow> map (\<lambda>c. (t, Some c)) ys) =
     (if \<forall>c \<in> set cs. \<not> P c then {(t, None)} else {(t, Some c) | c. c \<in> set cs \<and> P c})"
proof (cases "filter P cs")
  case Nil
  then show ?thesis by (simp add: filter_empty_conv)
next
  case (Cons y ys)
  then have "set (case filter P cs of [] \<Rightarrow> [(t, None)] | ys \<Rightarrow> map (\<lambda>c. (t, Some c)) ys)
      = (\<lambda>c. (t, Some c)) ` set (filter P cs)"
    by simp
  moreover from Cons have "\<not> (\<forall>c \<in> set cs. \<not> P c)"
    by (simp add: filter_empty_conv [symmetric])
  ultimately show ?thesis by auto
qed

lemma set_left_join:
  "set (left_join d) =
     {(t, None) | t. t \<in> set (tickets d) \<and> (\<forall>c \<in> set (comments d). c_ticket_id c \<noteq> t_id t)} \<union>
     {(t, Some c) | t c. t \<in> set (tickets d) \<and> c \<in> set (comments d) \<and> c_ticket_id c = t_id t}"
  unfolding left_join_def set_concat set_map image_image set_join_row
  by (auto split: if_splits)

text \<open>
  C3 as stated fails. A query with a wildcard matches texts of which it is no substring:
  \<^verbatim>\<open>a_c\<close> finds the ticket titled \<^verbatim>\<open>abc\<close>, which has description \<^verbatim>\<open>D\<close>, no tags and the
  one comment \<^verbatim>\<open>hello\<close>. A query also matches without regard to the case of ASCII
  letters: \<^verbatim>\<open>ABC\<close> finds the same ticket.
\<close>

theorem search_plain_substring_counterexample:
  "search_tickets store4 ''a_c'' None None = Inr [ticket_row 1 ''abc'' ''low'' [] ''2026-01-01T10:00:00''] \<and>
   \<not> occurs_in ''a_c'' ''abc'' \<and> \<not> occurs_in ''a_c'' ''D'' \<and> \<not> occurs_in ''a_c'' [] \<and>
   map c_content (get_comments store4 1) = [''hello''] \<and> \<not> occurs_in ''a_c'' ''hello'' \<and>
   search_tickets store4 ''ABC'' None None = Inr [ticket_row 1 ''abc'' ''low'' [] ''2026-01-01T10:00:00''] \<and>
   \<not> occurs_in ''ABC'' ''abc'' \<and> \<not> occurs_in ''ABC'' ''D'' \<and> \<not> occurs_in ''ABC'' [] \<and>
   \<not> occurs_in ''ABC'' ''hello''"
  by (simp add: store_defs query_defs)

text \<open>
  C3 (amended). For every query \<open>q\<close> that contains neither \<^verbatim>\<open>%\<close> nor \<^verbatim>\<open>_\<close>, whenever
  \<^verbatim>\<open>search_tickets\<close> returns, its result holds exactly the tickets of the table that pass
  the given project and status filters and for which \<open>q\<close> occurs, the ASCII letters
  compared without regard to case, as a substring of the title, the description, the tags
  string or the content of at least one comment of the ticket. Each such ticket appears
  exactly once, however many of its comments match, and the result is in the order of
  \<^verbatim>\<open>list_tickets\<close>: smaller priority rank first, then larger \<open>created_at\<close> first.
\<close>

theorem search_tickets_matches:
  assumes plain: "no_wildcard q"
    and result: "search_tickets d q project status = Inr ts"
  shows "distinct ts \<and>
     sorted_wrt (\<lambda>a b.
         priority_rank (t_priority a) < priority_rank (t_priority b) \<or>
         (priority_rank (t_priority a) = priority_rank (t_priority b) \<and>
          t_created_at b \<le> t_created_at a)) ts \<and>
     set ts = {t \<in> set (tickets d).
       (occurs_in (map ascii_lower q) (map ascii_lower (t_title t)) \<or>
        occurs_in (map ascii_lower q) (map ascii_lower (t_description t)) \<or>
        occurs_in (map ascii_lower q) (map ascii_lower (t_tags t)) \<or>
        (\<exists>c \<in> set (comments d). c_ticket_id c = t_id t \<and>
           occurs_in (map ascii_lower q) (map ascii_lower (c_content c)))) \<and>
       (\<forall>p. given project = Some p \<longrightarrow> t_project t = p) \<and>
       (\<forall>s. given status = Some s \<longrightarrow> t_status t = s)}"
proof -
  let ?W = "search_where (''%'' @ q @ ''%'') project status"
  let ?rows = "remdups (map fst (filter ?W (left_join d)))"
  from result have ts: "ts = order_by ticket_order ?rows"
    by (simp add: search_tickets_def split: if_splits)
  have once: "distinct ts"
    unfolding ts by (simp add: distinct_order_by)
  have "sorted_wrt ticket_order ts"
    unfolding ts by (rule sorted_ticket_order)
  then have sorted: "sorted_wrt (\<lambda>a b.
         priority_rank (t_priority a) < priority_rank (t_priority b) \<or>
         (priority_rank (t_priority a) = priority_rank (t_priority b) \<and>
          t_created_at b \<le> t_created_at a)) ts"
    by (simp add: ticket_order_def [abs_def])
  have W: "?W tc \<longleftrightarrow>
       (occurs_in (map ascii_lower q) (map ascii_lower (t_title (fst tc))) \<or>
        occurs_in (map ascii_lower q) (map ascii_lower (t_description (fst tc))) \<or>
        occurs_in (map ascii_lower q) (map ascii_lower (t_tags (fst tc))) \<or>
        (\<exists>c. snd tc = Some c \<and> occurs_in (map ascii_lower q) (map ascii_lower (c_content c)))) \<and>
       (\<forall>p. given project = Some p \<longrightarrow> t_project (fst tc) = p) \<and>
       (\<forall>s. given status = Some s \<longrightarrow> t_status (fst tc) = s)" for tc
    unfolding search_where_def like_contains [OF plain]
    by (auto split: option.splits)
  have "set ts = fst ` {tc \<in> set (left_join d). ?W tc}"
    unfolding ts by simp
  also have "\<dots> = {t \<in> set (tickets d).
       (occurs_in (map ascii_lower q) (map ascii_lower (t_title t)) \<or>
        occurs_in (map ascii_lower q) (map ascii_lower (t_description t)) \<or>
        occurs_in (map ascii_lower q) (map ascii_lower (t_tags t)) \<or>
        (\<exists>c \<in> set (comments d). c_ticket_id c = t_id t \<and>
           occurs_in (map ascii_lower q) (map ascii_lower (c_content c)))) \<and>
       (\<forall>p. given project = Some p \<longrightarrow> t_project t = p) \<and>
       (\<forall>s. given status = Some s \<longrightarrow> t_status t = s)}"
    unfolding W set_left_join
    by (auto simp: image_iff) blast+
  finally show ?thesis
    using once sorted by blast
qed

theorem search_tickets_matches_witness:
  "no_wildcard ''foo'' \<and>
   search_tickets store4 ''foo'' (Some ''/p'') (Some ''pending'') =
     Inr [ticket_row 2 ''xyz'' ''high'' [] ''2026-01-01T10:01:00''] \<and>
   \<not> occurs_in ''foo'' ''xyz'' \<and> \<not> occurs_in ''foo'' ''D'' \<and> \<not> occurs_in ''foo'' [] \<and>
   map c_content (get_comments store4 2) = [''foo one'', ''more foo''] \<and>
   occurs_in ''foo'' ''foo one'' \<and> occurs_in ''foo'' ''more foo'' \<and>
   map c_content (get_comments store4 1) = [''hello''] \<and> \<not> occurs_in ''foo'' ''hello'' \<and>
   search_tickets store4 ''FOO'' None None =
     Inr [ticket_row 2 ''xyz'' ''high'' [] ''2026-01-01T10:01:00'']"
proof -
  have plain: "no_wildcard ''foo''" "no_wildcard ''FOO''"
    by (simp_all add: no_wildcard_def)
  have result: "search_tickets store4 ''foo'' (Some ''/p'') (Some ''pending'') =
      Inr [ticket_row 2 ''xyz'' ''high'' [] ''2026-01-01T10:01:00'']"
    by (simp add: store_defs query_defs)
  have upper: "search_tickets store4 ''FOO'' None None =
      Inr [ticket_row 2 ''xyz'' ''high'' [] ''2026-01-01T10:01:00'']"
    by (simp add: store_defs query_defs)
  have comments: "map c_content (get_comments store4 2) = [''foo one'', ''more foo'']"
    "map c_content (get_comments store4 1) = [''hello'']"
    by (simp_all add: store_defs order_by_def)
  from search_tickets_matches [OF plain(1) result] search_tickets_matches [OF plain(2) upper]
  show ?thesis
    using plain result upper comments by simp
qed

end
